theory Spec2Isabelle
  imports Main "HOL-Library.AList"
begin

section \<open>The buffer interface of sentry.buffer.base\<close>

text \<open>
  The module defines the class \<open>Buffer\<close>: a registry of named callbacks and a handful of
  methods that hand work to three collaborators, namely the task queue
  (\<open>apply_async\<close>), the backing store (\<open>model.objects.create_or_update\<close>) and the
  signal \<open>buffer_incr_complete\<close>. The embedding makes each of them a component of an
  explicit program state, and every method a function from a state to an outcome and a
  new state.

  Callbacks, subscribers and store operations act on the outside state, not on the
  buffers, the queue or the warnings.
\<close>

subsection \<open>Values, errors and outcomes\<close>

text \<open>Python values that travel through the interface: counters, text and \<open>None\<close>.\<close>

datatype val = IntV int | StrV string | NoneV

text \<open>
  The exceptions that can leave a method. \<open>NotImplementedError\<close> is the only one the
  module raises by itself; \<open>AttributeError\<close> is what reading \<open>self.registry\<close> gives on
  an object whose \<open>__init__\<close> never ran; \<open>TypeError\<close> is what a call gives when one
  keyword gets two values; \<open>DeprecationWarning\<close>, with its message, is the warning
  raised as an exception; \<open>KeyError\<close> and \<open>External\<close> stand for exceptions raised by
  callbacks, subscribers and the backing store.
\<close>

datatype error =
    NotImplementedError
  | AttributeError
  | TypeError
  | DeprecationWarning string
  | KeyError
  | External string

datatype 'a result = Returned 'a | Raised error

text \<open>A \<open>dict\<close> with string keys, in insertion order.\<close>

type_synonym 'a dict = "(string \<times> 'a) list"

text \<open>
  A value of the \<open>values\<close> argument of \<open>create_or_update\<close>: either the expression
  \<open>F(c) + v\<close> or a plain value.
\<close>

datatype expr = FPlus string int | Const val

subsection \<open>Collaborators\<close>

text \<open>
  \<open>'e\<close> is the state of everything outside the buffer that a store operation, a
  subscriber or a callback can change (the database, for one). A model is the argument
  \<open>model\<close> of \<open>incr\<close> and \<open>process_incr\<close>: its \<open>create_or_update\<close> takes the
  \<open>values\<close> and the filters (passed as \<open>**filters\<close>), and either raises or returns,
  of the pair the manager gives back, the \<open>created\<close> flag.
\<close>

record 'e model =
  model_name :: string
  create_or_update :: "expr dict \<Rightarrow> val dict \<Rightarrow> 'e \<Rightarrow> bool result \<times> 'e"

text \<open>The keyword arguments of one \<open>buffer_incr_complete.send_robust\<close> call.\<close>

record 'e event =
  ev_model :: "'e model"
  ev_columns :: "int dict"
  ev_filters :: "val dict"
  ev_extra :: "val dict option"
  ev_created :: bool
  ev_sender :: "'e model"

text \<open>A subscriber of the signal, and a registered callback (called with keyword arguments).\<close>

type_synonym 'e receiver = "'e event \<Rightarrow> 'e \<Rightarrow> val result \<times> 'e"

type_synonym 'e callback = "val dict \<Rightarrow> 'e \<Rightarrow> val result \<times> 'e"

text \<open>
  A unit of work handed to the task queue by \<open>apply_async(kwargs=...)\<close>: one of the two
  tasks of \<open>sentry.tasks.process_buffer\<close> with its keyword arguments.
\<close>

datatype 'e task =
    ProcessIncrTask "'e model" "int dict" "val dict" "val dict option"
  | ProcessCbTask string val

subsection \<open>Program state\<close>

text \<open>An instance of \<open>Buffer\<close> has one attribute, set by \<open>__init__\<close>.\<close>

record 'e buffer =
  registry :: "string \<rightharpoonup> 'e callback"

text \<open>
  \<open>objs\<close> is the object store: a reference (\<open>self\<close>) is a number, and an initialised
  \<open>Buffer\<close> lives at it. \<open>env\<close> is the outside state, \<open>receivers\<close> the subscribers
  connected to \<open>buffer_incr_complete\<close>, \<open>queue\<close> the tasks submitted and not yet run,
  \<open>warnings\<close> the warnings issued (category and message), and \<open>warnings_as_errors\<close>
  says whether the warnings filter in force has the action \<open>error\<close> for
  \<open>DeprecationWarning\<close>.
\<close>

record 'e state =
  objs :: "nat \<Rightarrow> 'e buffer option"
  env :: 'e
  receivers :: "'e receiver list"
  queue :: "'e task list"
  warnings :: "(string \<times> string) list"
  warnings_as_errors :: bool

subsection \<open>The task queue\<close>

text \<open>
  Modelled from the spec: the tasks \<open>process_incr\<close> and \<open>process_cb\<close> of
  \<open>sentry.tasks.process_buffer\<close>, and their \<open>apply_async\<close>, are not part of the
  module. Section 6 has it that "the Coalescer/Dispatcher invocation is itself submitted
  as an asynchronous unit of work" which "an external scheduler delivers", and that
  \<open>apply\<close> "triggers async invocation of the registered callback"; section 5, that "the
  actual backing-store write happens asynchronously in the Dispatcher". So
  \<open>apply_async\<close> puts the task with its keyword arguments at the end of the queue and
  returns; the delivery of a task is \<open>run_task\<close> below.
\<close>

definition apply_async :: "'e state \<Rightarrow> 'e task \<Rightarrow> 'e state" where
  "apply_async s t = s\<lparr>queue := queue s @ [t]\<rparr>"

subsection \<open>Warnings\<close>

text \<open>
  \<open>warnings.warn(message, DeprecationWarning)\<close> of the standard library: where the
  filter has the action \<open>error\<close> the warning is raised as an exception; otherwise the
  call returns and the warning is on record (whether it is shown is the filter's business).
\<close>

definition warn_deprecation :: "'e state \<Rightarrow> string \<Rightarrow> unit result \<times> 'e state" where
  "warn_deprecation s message =
     (if warnings_as_errors s then (Raised (DeprecationWarning message), s)
      else (Returned (), s\<lparr>warnings := warnings s @ [(''DeprecationWarning'', message)]\<rparr>))"

subsection \<open>Signal delivery\<close>

text \<open>
  Modelled from the spec: \<open>send_robust\<close> is inherited by \<open>buffer_incr_complete\<close> from
  the signal class, which \<open>sentry.signals\<close> builds on and which is not part of the
  module. Following section 4.4 ("a failing subscriber must not abort the dispatch or
  affect other subscribers") every subscriber is called once, in order, with the event;
  what it returns or raises is collected as its response and the next subscriber runs on
  the state the previous one left.
\<close>

fun send_robust :: "'e receiver list \<Rightarrow> 'e event \<Rightarrow> 'e \<Rightarrow> val result list \<times> 'e" where
  "send_robust [] ev e = ([], e)"
| "send_robust (r # rs) ev e =
     (let (resp, e1) = r ev e;
          (resps, e2) = send_robust rs ev e1
      in (resp # resps, e2))"

subsection \<open>The methods of Buffer\<close>

text \<open>\<open>__init__\<close>: \<open>self.registry = {}\<close>.\<close>

definition init :: "'e state \<Rightarrow> nat \<Rightarrow> unit result \<times> 'e state" where
  "init s self = (Returned (), s\<lparr>objs := (objs s)(self \<mapsto> \<lparr>registry = Map.empty\<rparr>)\<rparr>)"

text \<open>\<open>register_cb\<close>: \<open>self.registry[name] = cb\<close>.\<close>

definition register_cb ::
  "'e state \<Rightarrow> nat \<Rightarrow> string \<Rightarrow> 'e callback \<Rightarrow> unit result \<times> 'e state" where
  "register_cb s self name cb =
     (case objs s self of
        None \<Rightarrow> (Raised AttributeError, s)
      | Some b \<Rightarrow>
          (Returned (), s\<lparr>objs := (objs s)(self \<mapsto> b\<lparr>registry := (registry b)(name \<mapsto> cb)\<rparr>)\<rparr>))"

text \<open>
  \<open>apply\<close>: raise when the name is not in the registry, otherwise submit the task
  \<open>process_cb\<close> with the name and the value.
\<close>

definition apply_buffer ::
  "'e state \<Rightarrow> nat \<Rightarrow> string \<Rightarrow> val \<Rightarrow> unit result \<times> 'e state" where
  "apply_buffer s self name v =
     (case objs s self of
        None \<Rightarrow> (Raised AttributeError, s)
      | Some b \<Rightarrow>
          (if registry b name = None then (Raised NotImplementedError, s)
           else (Returned (), apply_async s (ProcessCbTask name v))))"

text \<open>\<open>incr\<close>: submit the task \<open>process_incr\<close> with the four arguments.\<close>

definition incr ::
  "'e state \<Rightarrow> nat \<Rightarrow> 'e model \<Rightarrow> int dict \<Rightarrow> val dict \<Rightarrow> val dict option
     \<Rightarrow> unit result \<times> 'e state" where
  "incr s self m columns filters extra =
     (Returned (), apply_async s (ProcessIncrTask m columns filters extra))"

text \<open>\<open>validate\<close> has a docstring for a body.\<close>

definition validate :: "'e state \<Rightarrow> nat \<Rightarrow> unit result \<times> 'e state" where
  "validate s self = (Returned (), s)"

text \<open>The two drains return an empty list.\<close>

definition process_pending_incr :: "'e state \<Rightarrow> nat \<Rightarrow> 'e task list result \<times> 'e state" where
  "process_pending_incr s self = (Returned [], s)"

definition process_pending_cb :: "'e state \<Rightarrow> nat \<Rightarrow> 'e task list result \<times> 'e state" where
  "process_pending_cb s self = (Returned [], s)"

text \<open>\<open>process_pending\<close> calls one drain after the other and drops what they return.\<close>

definition process_pending :: "'e state \<Rightarrow> nat \<Rightarrow> unit result \<times> 'e state" where
  "process_pending s self =
     (case process_pending_incr s self of
        (Raised err, s1) \<Rightarrow> (Raised err, s1)
      | (Returned _, s1) \<Rightarrow>
          (case process_pending_cb s1 self of
             (Raised err, s2) \<Rightarrow> (Raised err, s2)
           | (Returned _, s2) \<Rightarrow> (Returned (), s2)))"

text \<open>
  The first three lines of \<open>process_incr\<close>. \<open>dict(...)\<close> inserts the pairs
  \<open>(c, F(c) + v)\<close> one after the other, and \<open>update\<close> does the same with the pairs
  of \<open>extra\<close>, which is skipped when it is \<open>None\<close> or empty (\<open>if extra:\<close>).
  Inserting a key that is present replaces its value.
\<close>

definition dict_update :: "'a dict \<Rightarrow> 'a dict \<Rightarrow> 'a dict" where
  "dict_update d kvs = fold (\<lambda>(k, v). AList.update k v) kvs d"

definition update_kwargs :: "int dict \<Rightarrow> val dict option \<Rightarrow> expr dict" where
  "update_kwargs columns extra =
     (let kw = dict_update [] (map (\<lambda>(c, v). (c, FPlus c v)) columns)
      in case extra of
           None \<Rightarrow> kw
         | Some ex \<Rightarrow> (if ex = [] then kw else dict_update kw (map (\<lambda>(k, v). (k, Const v)) ex)))"

text \<open>
  \<open>process_incr\<close>: one \<open>create_or_update(values=update_kwargs, **filters)\<close> on the
  model, then one \<open>send_robust\<close> with the arguments and the flag. The call raises
  \<open>TypeError\<close> before the store is reached when \<open>filters\<close> has the key \<open>values\<close>
  itself (two values for one keyword); an exception of the store leaves the method.
\<close>

definition process_incr ::
  "'e state \<Rightarrow> nat \<Rightarrow> 'e model \<Rightarrow> int dict \<Rightarrow> val dict \<Rightarrow> val dict option
     \<Rightarrow> unit result \<times> 'e state" where
  "process_incr s self m columns filters extra =
     (let kw = update_kwargs columns extra
      in if ''values'' \<in> set (map fst filters) then (Raised TypeError, s)
         else
           (case create_or_update m kw filters (env s) of
              (Raised err, e1) \<Rightarrow> (Raised err, s\<lparr>env := e1\<rparr>)
            | (Returned created, e1) \<Rightarrow>
                (Returned (),
                 s\<lparr>env := snd (send_robust (receivers s)
                           \<lparr>ev_model = m, ev_columns = columns, ev_filters = filters,
                            ev_extra = extra, ev_created = created, ev_sender = m\<rparr> e1)\<rparr>)))"

text \<open>
  \<open>process_cb\<close>: the lookup raises \<open>NotImplementedError\<close> in place of the
  \<open>KeyError\<close>; the callback is called outside the \<open>try\<close>, with \<open>value\<close> as a keyword
  argument, so whatever it raises leaves the method as it is.
\<close>

definition process_cb ::
  "'e state \<Rightarrow> nat \<Rightarrow> string \<Rightarrow> val \<Rightarrow> unit result \<times> 'e state" where
  "process_cb s self name v =
     (case objs s self of
        None \<Rightarrow> (Raised AttributeError, s)
      | Some b \<Rightarrow>
          (case registry b name of
             None \<Rightarrow> (Raised NotImplementedError, s)
           | Some cb \<Rightarrow>
               (case cb [(''value'', v)] (env s) of
                  (Raised err, e1) \<Rightarrow> (Raised err, s\<lparr>env := e1\<rparr>)
                | (Returned _, e1) \<Rightarrow> (Returned (), s\<lparr>env := e1\<rparr>))))"

text \<open>
  \<open>process\<close>: warn, then call \<open>process_incr\<close> with the same arguments; a warning
  raised as an exception leaves the method before the call.
\<close>

definition process ::
  "'e state \<Rightarrow> nat \<Rightarrow> 'e model \<Rightarrow> int dict \<Rightarrow> val dict \<Rightarrow> val dict option
     \<Rightarrow> unit result \<times> 'e state" where
  "process s self m columns filters extra =
     (case warn_deprecation s ''buffer.process is deprecated, use buffer.process_incr'' of
        (Raised err, s1) \<Rightarrow> (Raised err, s1)
      | (Returned _, s1) \<Rightarrow> process_incr s1 self m columns filters extra)"

subsection \<open>Delivery of a task\<close>



subsection \<open>Sequences of calls\<close>

text \<open>
  What a client does with buffers is a sequence of method calls, each on some instance.
  A call that raises leaves the state it reached, and the client goes on.
\<close>

datatype 'e call =
    Register string "'e callback"
  | Apply string val
  | Incr "'e model" "int dict" "val dict" "val dict option"
  | Validate
  | ProcessPending
  | ProcessIncr "'e model" "int dict" "val dict" "val dict option"
  | ProcessCb string val
  | Process "'e model" "int dict" "val dict" "val dict option"

fun run_call :: "'e state \<Rightarrow> nat \<times> 'e call \<Rightarrow> 'e state" where
  "run_call s (self, Register name cb) = snd (register_cb s self name cb)"
| "run_call s (self, Apply name v) = snd (apply_buffer s self name v)"
| "run_call s (self, Incr m columns filters extra) = snd (incr s self m columns filters extra)"
| "run_call s (self, Validate) = snd (validate s self)"
| "run_call s (self, ProcessPending) = snd (process_pending s self)"
| "run_call s (self, ProcessIncr m columns filters extra) =
     snd (process_incr s self m columns filters extra)"
| "run_call s (self, ProcessCb name v) = snd (process_cb s self name v)"
| "run_call s (self, Process m columns filters extra) =
     snd (process s self m columns filters extra)"

definition run_calls :: "'e state \<Rightarrow> (nat \<times> 'e call) list \<Rightarrow> 'e state" where
  "run_calls s cs = foldl run_call s cs"

subsection \<open>The backing store of the specification\<close>

text \<open>
  Modelled from the spec: \<open>create_or_update\<close> is a method of the model manager, which
  is not part of the module. Section 4.4 describes it: "the row/record identified by the
  Identity's filter is located; if absent, it is created with the increment values as
  initial values; if present, each column is incremented by its delta and overwrite
  fields are set. Returns whether the record was newly created." A table is a list of
  rows; a row matches when it has every filter value. An increment needs a number in the
  column; where a matching row has none the operation fails as a whole and changes
  nothing (the store write failure of section 7).
\<close>

type_synonym row = "val dict"

type_synonym table = "row list"

definition matches :: "val dict \<Rightarrow> row \<Rightarrow> bool" where
  "matches filters r = list_all (\<lambda>(k, v). map_of r k = Some v) filters"

fun eval_expr :: "row \<Rightarrow> expr \<Rightarrow> val option" where
  "eval_expr r (Const v) = Some v"
| "eval_expr r (FPlus c d) =
     (case map_of r c of Some (IntV n) \<Rightarrow> Some (IntV (n + d)) | _ \<Rightarrow> None)"

fun update_row :: "row \<Rightarrow> expr dict \<Rightarrow> row \<Rightarrow> row option" where
  "update_row old [] acc = Some acc"
| "update_row old ((k, x) # kw) acc =
     (case eval_expr old x of
        None \<Rightarrow> None
      | Some v \<Rightarrow> update_row old kw (AList.update k v acc))"

fun initial_value :: "expr \<Rightarrow> val" where
  "initial_value (Const v) = v"
| "initial_value (FPlus c d) = IntV d"

definition new_row :: "val dict \<Rightarrow> expr dict \<Rightarrow> row" where
  "new_row filters kw = dict_update filters (map (\<lambda>(k, x). (k, initial_value x)) kw)"

definition spec_create_or_update :: "expr dict \<Rightarrow> val dict \<Rightarrow> table \<Rightarrow> bool result \<times> table" where
  "spec_create_or_update kw filters t =
     (if list_ex (matches filters) t then
        (if list_all (\<lambda>r. matches filters r \<longrightarrow> update_row r kw r \<noteq> None) t
         then (Returned False,
               map (\<lambda>r. if matches filters r
                         then (case update_row r kw r of Some r' \<Rightarrow> r' | None \<Rightarrow> r)
                         else r) t)
         else (Raised (External ''DatabaseError''), t))
      else (Returned True, t @ [new_row filters kw]))"

text \<open>The items of \<open>extra\<close>, none when it is \<open>None\<close>.\<close>

definition extra_items :: "val dict option \<Rightarrow> val dict" where
  "extra_items extra = (case extra of None \<Rightarrow> [] | Some ex \<Rightarrow> ex)"

subsection \<open>An outside state with a table and a log\<close>

text \<open>
  An outside state made of the table of the store and a log of observations, with a
  model whose \<open>create_or_update\<close> appends the arguments it was given to the log and
  reports a new record, a subscriber that appends what the event carries, and a
  subscriber that raises. With them the outside state shows what the buffer sent to the
  store and to the signal.
\<close>

datatype observation =
    StoreCall "expr dict" "val dict"
  | SignalSeen string "int dict" "val dict" "val dict option" bool

record world =
  rows :: table
  seen :: "observation list"

definition empty_world :: world where
  "empty_world = \<lparr>rows = [], seen = []\<rparr>"

definition recording_model :: "string \<Rightarrow> world model" where
  "recording_model n =
     \<lparr>model_name = n,
      create_or_update =
        (\<lambda>kw filters w. (Returned True, w\<lparr>seen := seen w @ [StoreCall kw filters]\<rparr>))\<rparr>"

definition recording_receiver :: "world receiver" where
  "recording_receiver ev w =
     (Returned NoneV,
      w\<lparr>seen := seen w @ [SignalSeen (model_name (ev_model ev)) (ev_columns ev)
                             (ev_filters ev) (ev_extra ev) (ev_created ev)]\<rparr>)"

definition raising_receiver :: "world receiver" where
  "raising_receiver ev w = (Raised (External ''subscriber failed''), w)"

text \<open>The model of the specification's store, on the table of the outside state.\<close>

definition spec_model :: "string \<Rightarrow> world model" where
  "spec_model n =
     \<lparr>model_name = n,
      create_or_update =
        (\<lambda>kw filters w.
           case spec_create_or_update kw filters (rows w) of (r, t) \<Rightarrow> (r, w\<lparr>rows := t\<rparr>))\<rparr>"

subsection \<open>Concrete states and callbacks\<close>

text \<open>
  A state with no object, no subscriber, no task and no warning, under a filter that
  raises no warning.
\<close>

definition empty_state :: "'e \<Rightarrow> 'e state" where
  "empty_state e =
     \<lparr>objs = Map.empty, env = e, receivers = [], queue = [], warnings = [],
      warnings_as_errors = False\<rparr>"

text \<open>A callback on a counter: it adds a number to it, whatever its arguments.\<close>

definition add_to_env :: "int \<Rightarrow> int callback" where
  "add_to_env n kw e = (Returned NoneV, e + n)"

section \<open>Properties\<close>

subsection \<open>The object store is touched by the constructor and register_cb only\<close>

lemma objs_register_cb_other:
  "other \<noteq> self \<Longrightarrow> objs (snd (register_cb s self name cb)) other = objs s other"
  by (simp add: register_cb_def split: option.split)

lemma state_register_cb:
  "snd (register_cb s self name cb) = s\<lparr>objs := objs (snd (register_cb s self name cb))\<rparr>"
  by (simp add: register_cb_def split: option.split)

lemma objs_apply_buffer: "objs (snd (apply_buffer s self name v)) = objs s"
  by (simp add: apply_buffer_def apply_async_def split: option.split)

lemma objs_incr: "objs (snd (incr s self m columns filters extra)) = objs s"
  by (simp add: incr_def apply_async_def)

lemma objs_validate: "objs (snd (validate s self)) = objs s"
  by (simp add: validate_def)

lemma objs_process_pending: "objs (snd (process_pending s self)) = objs s"
  by (simp add: process_pending_def process_pending_incr_def process_pending_cb_def)

lemma objs_process_incr: "objs (snd (process_incr s self m columns filters extra)) = objs s"
  by (simp add: process_incr_def Let_def split: prod.split result.split)

lemma objs_process_cb: "objs (snd (process_cb s self name v)) = objs s"
  by (simp add: process_cb_def split: option.split prod.split result.split)

lemma objs_process: "objs (snd (process s self m columns filters extra)) = objs s"
  by (simp add: process_def warn_deprecation_def objs_process_incr)

text \<open>
  C10. The registry is an attribute of the instance. The constructor gives the instance
  it runs on an empty registry; the constructor and \<open>register_cb\<close> leave every other
  instance as it was, and \<open>register_cb\<close> changes nothing but the object store;
  \<open>incr\<close>, \<open>apply\<close>, \<open>process_incr\<close>, \<open>process_cb\<close>,
  \<open>process_pending\<close> and \<open>process\<close> leave the registry of every instance as it was.
\<close>

theorem registry_frame:
  "objs (snd (init s self)) self = Some \<lparr>registry = Map.empty\<rparr>
   \<and> (\<forall>other. other \<noteq> self \<longrightarrow>
         objs (snd (init s self)) other = objs s other
       \<and> objs (snd (register_cb s self name cb)) other = objs s other)
   \<and> snd (register_cb s self name cb) = s\<lparr>objs := objs (snd (register_cb s self name cb))\<rparr>
   \<and> objs (snd (incr s self m columns filters extra)) = objs s
   \<and> objs (snd (apply_buffer s self name v)) = objs s
   \<and> objs (snd (process_incr s self m columns filters extra)) = objs s
   \<and> objs (snd (process_cb s self name v)) = objs s
   \<and> objs (snd (process_pending s self)) = objs s
   \<and> objs (snd (process s self m columns filters extra)) = objs s"
proof -
  have frame: "objs (snd (incr s self m columns filters extra)) = objs s
     \<and> objs (snd (apply_buffer s self name v)) = objs s
     \<and> objs (snd (process_incr s self m columns filters extra)) = objs s
     \<and> objs (snd (process_cb s self name v)) = objs s
     \<and> objs (snd (process_pending s self)) = objs s
     \<and> objs (snd (process s self m columns filters extra)) = objs s"
    by (simp add: objs_incr objs_apply_buffer objs_process_incr objs_process_cb
          objs_process_pending objs_process)
  have constructed: "objs (snd (init s self)) self = Some \<lparr>registry = Map.empty\<rparr>"
    by (simp add: init_def)
  have others: "\<forall>other. other \<noteq> self \<longrightarrow>
         objs (snd (init s self)) other = objs s other
       \<and> objs (snd (register_cb s self name cb)) other = objs s other"
    by (simp add: init_def objs_register_cb_other)
  from constructed others state_register_cb [of s self name cb] frame
  show ?thesis by blast
qed

theorem registry_frame_witness:
  "objs (snd (init (empty_state (0::int)) 0)) 0 = Some \<lparr>registry = Map.empty\<rparr>
   \<and> objs (snd (init (snd (init (empty_state (0::int)) 0)) 1)) 0 = Some \<lparr>registry = Map.empty\<rparr>
   \<and> objs (snd (register_cb (snd (init (snd (init (empty_state (0::int)) 0)) 1)) 1 ''cb'' (add_to_env 1))) 0
       = Some \<lparr>registry = Map.empty\<rparr>"
proof -
  let ?s0 = "empty_state (0::int)"
  let ?s1 = "snd (init ?s0 0)"
  let ?s2 = "snd (init ?s1 1)"
  have a: "objs ?s1 0 = Some \<lparr>registry = Map.empty\<rparr>"
    using registry_frame [of ?s0 0] by blast
  have "(0::nat) \<noteq> 1" by simp
  then have b: "objs ?s2 0 = objs ?s1 0"
    using registry_frame [of ?s1 1] by blast
  have "(0::nat) \<noteq> 1" by simp
  then have c: "objs (snd (register_cb ?s2 1 ''cb'' (add_to_env 1))) 0 = objs ?s2 0"
    using registry_frame [of ?s2 1 "''cb''" "add_to_env 1"] by blast
  show ?thesis using a b c by simp
qed

subsection \<open>Registration\<close>

text \<open>
  C1, as the code has it. On an initialised instance \<open>register_cb\<close> returns normally
  for every name, present in the registry or not, and stores the callback under the
  name; an entry that was there is replaced, and no other entry changes.
\<close>

theorem register_cb_overwrites:
  assumes "objs s self = Some b"
  shows "register_cb s self name cb =
           (Returned (), s\<lparr>objs := (objs s)(self \<mapsto> b\<lparr>registry := (registry b)(name \<mapsto> cb)\<rparr>)\<rparr>)
         \<and> (\<exists>b'. objs (snd (register_cb s self name cb)) self = Some b'
                \<and> registry b' name = Some cb
                \<and> (\<forall>n. n \<noteq> name \<longrightarrow> registry b' n = registry b n))"
  using assms by (simp add: register_cb_def)

theorem register_cb_overwrites_witness:
  "objs (snd (init (empty_state (0::int)) 0)) 0 = Some \<lparr>registry = Map.empty\<rparr>
   \<and> register_cb (snd (init (empty_state 0) 0)) 0 ''cb'' (add_to_env 1) =
       (Returned (), (empty_state 0)\<lparr>objs := [0 \<mapsto> \<lparr>registry = [''cb'' \<mapsto> add_to_env 1]\<rparr>]\<rparr>)"
proof -
  have h: "objs (snd (init (empty_state (0::int)) 0)) 0 = Some \<lparr>registry = Map.empty\<rparr>"
    by (simp add: init_def empty_state_def)
  show ?thesis
    using h register_cb_overwrites [OF h, of "''cb''" "add_to_env 1"]
    by (simp add: init_def empty_state_def)
qed

text \<open>
  C1 as stated fails: registering \<open>cb\<close> a second time, with another callback, returns
  normally and the registry holds the second callback.
\<close>

theorem register_cb_twice_counterexample:
  "register_cb (snd (register_cb (snd (init (empty_state 0) 0)) 0 ''cb'' (add_to_env 1)))
      0 ''cb'' (add_to_env 2)
     = (Returned (), (empty_state 0)\<lparr>objs := [0 \<mapsto> \<lparr>registry = [''cb'' \<mapsto> add_to_env 2]\<rparr>]\<rparr>)
   \<and> snd (add_to_env 2 [] 0) \<noteq> snd (add_to_env 1 [] 0)"
  by (simp add: register_cb_def init_def empty_state_def add_to_env_def)

subsection \<open>Submitting a callback\<close>

text \<open>What a sequence of calls does to the registry of an instance.\<close>

lemma objs_run_call:
  "objs s self = Some b \<Longrightarrow>
   objs (run_call s (t, c)) self =
     Some (case c of
             Register n cb \<Rightarrow> if t = self then b\<lparr>registry := (registry b)(n \<mapsto> cb)\<rparr> else b
           | _ \<Rightarrow> b)"
  by (cases c)
     (simp_all add: objs_apply_buffer objs_incr objs_validate objs_process_pending
        objs_process_incr objs_process_cb objs_process register_cb_def split: option.split)

lemma registry_run_calls:
  "objs s self = Some b \<Longrightarrow>
   \<exists>b'. objs (run_calls s cs) self = Some b'
      \<and> (\<forall>name. registry b' name = None \<longleftrightarrow>
            registry b name = None \<and> (\<forall>cb. (self, Register name cb) \<notin> set cs))"
proof (induction cs arbitrary: s b)
  case Nil
  then show ?case by (simp add: run_calls_def)
next
  case (Cons tc cs)
  obtain t c where tc: "tc = (t, c)" by (cases tc)
  let ?b1 = "case c of
               Register n cb \<Rightarrow> if t = self then b\<lparr>registry := (registry b)(n \<mapsto> cb)\<rparr> else b
             | _ \<Rightarrow> b"
  have step: "objs (run_call s (t, c)) self = Some ?b1"
    using Cons.prems by (rule objs_run_call)
  from Cons.IH [OF step] obtain b' where
    b': "objs (run_calls (run_call s (t, c)) cs) self = Some b'"
    and reg: "\<And>name. registry b' name = None \<longleftrightarrow>
                registry ?b1 name = None \<and> (\<forall>cb. (self, Register name cb) \<notin> set cs)"
    by blast
  have first: "\<And>name. registry ?b1 name = None \<longleftrightarrow>
                 registry b name = None \<and> (\<forall>cb. (self, Register name cb) \<noteq> (t, c))"
    by (cases c) auto
  have "objs (run_calls s (tc # cs)) self = Some b'"
    using b' by (simp add: run_calls_def tc)
  moreover have "\<forall>name. registry b' name = None \<longleftrightarrow>
                   registry b name = None \<and> (\<forall>cb. (self, Register name cb) \<notin> set (tc # cs))"
    using reg first by (auto simp add: tc)
  ultimately show ?case by blast
qed

text \<open>
  C2. Take an instance from its construction through any sequence of calls, on it and on
  other instances. Then \<open>apply\<close> raises exactly when no call of the sequence registered
  the name on the instance; when it raises, the error is \<open>NotImplementedError\<close> and the
  state is as before (no task submitted, the outside state untouched); when the name was
  registered it returns normally, and all it has done is to put the task \<open>process_cb\<close>
  with the name and the value at the end of the queue: the callback has not run.
\<close>

theorem apply_raises_iff_unregistered:
  assumes "s = run_calls (snd (init s0 self)) cs"
  shows "((\<exists>err. fst (apply_buffer s self name v) = Raised err)
            \<longleftrightarrow> (\<forall>cb. (self, Register name cb) \<notin> set cs))
       \<and> ((\<forall>cb. (self, Register name cb) \<notin> set cs) \<longrightarrow>
            apply_buffer s self name v = (Raised NotImplementedError, s))
       \<and> ((\<exists>cb. (self, Register name cb) \<in> set cs) \<longrightarrow>
            apply_buffer s self name v =
              (Returned (), s\<lparr>queue := queue s @ [ProcessCbTask name v]\<rparr>))"
proof -
  have "objs (snd (init s0 self)) self = Some \<lparr>registry = Map.empty\<rparr>"
    by (simp add: init_def)
  from registry_run_calls [OF this, of cs] obtain b' where
    b': "objs s self = Some b'"
    and reg: "registry b' name = None \<longleftrightarrow> (\<forall>cb. (self, Register name cb) \<notin> set cs)"
    using assms by auto
  show ?thesis
  proof (cases "registry b' name = None")
    case True
    with b' reg show ?thesis by (simp add: apply_buffer_def)
  next
    case False
    with b' reg show ?thesis by (simp add: apply_buffer_def apply_async_def)
  qed
qed

theorem apply_raises_iff_unregistered_witness:
  "apply_buffer (run_calls (snd (init (empty_state (0::int)) 0)) [(0, Register ''cb'' (add_to_env 1))])
       0 ''other'' (IntV 5)
     = (Raised NotImplementedError,
        (empty_state 0)\<lparr>objs := [0 \<mapsto> \<lparr>registry = [''cb'' \<mapsto> add_to_env 1]\<rparr>]\<rparr>)
   \<and> apply_buffer (run_calls (snd (init (empty_state (0::int)) 0)) [(0, Register ''cb'' (add_to_env 1))])
       0 ''cb'' (IntV 5)
     = (Returned (),
        (empty_state 0)\<lparr>objs := [0 \<mapsto> \<lparr>registry = [''cb'' \<mapsto> add_to_env 1]\<rparr>],
                        queue := [ProcessCbTask ''cb'' (IntV 5)]\<rparr>)"
  using apply_raises_iff_unregistered
          [of "run_calls (snd (init (empty_state (0::int)) 0)) [(0, Register ''cb'' (add_to_env 1))]"
              "empty_state 0" 0 "[(0, Register ''cb'' (add_to_env 1))]" "''other''" "IntV 5"]
        apply_raises_iff_unregistered
          [of "run_calls (snd (init (empty_state (0::int)) 0)) [(0, Register ''cb'' (add_to_env 1))]"
              "empty_state 0" 0 "[(0, Register ''cb'' (add_to_env 1))]" "''cb''" "IntV 5"]
  by (simp add: run_calls_def init_def register_cb_def empty_state_def)

subsection \<open>Running a callback\<close>

text \<open>
  C3. On an initialised instance \<open>process_cb\<close> raises \<open>NotImplementedError\<close> and leaves
  the state alone when the name is not in the registry; otherwise it calls the registered
  callback once with the keyword argument \<open>value\<close>, keeps the state the callback leaves,
  and raises what the callback raises.
\<close>

theorem process_cb_invokes_registered:
  assumes "objs s self = Some b"
  shows "(registry b name = None \<longrightarrow> process_cb s self name v = (Raised NotImplementedError, s))
       \<and> (\<forall>cb. registry b name = Some cb \<longrightarrow>
            snd (process_cb s self name v) = s\<lparr>env := snd (cb [(''value'', v)] (env s))\<rparr>
          \<and> fst (process_cb s self name v) =
              (case fst (cb [(''value'', v)] (env s)) of
                 Raised err \<Rightarrow> Raised err
               | Returned _ \<Rightarrow> Returned ()))"
  using assms by (auto simp add: process_cb_def split: prod.split result.split)

theorem process_cb_invokes_registered_witness:
  "objs (run_calls (snd (init (empty_state (0::int)) 0)) [(0, Register ''cb'' (add_to_env 1))]) 0
     = Some \<lparr>registry = [''cb'' \<mapsto> add_to_env 1]\<rparr>
   \<and> process_cb (run_calls (snd (init (empty_state (0::int)) 0)) [(0, Register ''cb'' (add_to_env 1))])
       0 ''other'' (IntV 5)
     = (Raised NotImplementedError,
        (empty_state 0)\<lparr>objs := [0 \<mapsto> \<lparr>registry = [''cb'' \<mapsto> add_to_env 1]\<rparr>]\<rparr>)
   \<and> env (snd (process_cb (run_calls (snd (init (empty_state (0::int)) 0)) [(0, Register ''cb'' (add_to_env 1))])
       0 ''cb'' (IntV 5))) = 1"
proof -
  let ?s = "run_calls (snd (init (empty_state (0::int)) 0)) [(0, Register ''cb'' (add_to_env 1))]"
  have h: "objs ?s 0 = Some \<lparr>registry = [''cb'' \<mapsto> add_to_env 1]\<rparr>"
    by (simp add: run_calls_def init_def register_cb_def empty_state_def)
  show ?thesis
    using h process_cb_invokes_registered [OF h, of "''other''" "IntV 5"]
      process_cb_invokes_registered [OF h, of "''cb''" "IntV 5"]
    by (simp add: run_calls_def init_def register_cb_def empty_state_def add_to_env_def)
qed

subsection \<open>The deprecated entry point\<close>

text \<open>
  C6, as the code has it. Where the warnings filter does not raise the warning,
  \<open>process\<close> returns or raises what \<open>process_incr\<close> does on the same arguments, and
  leaves the state \<open>process_incr\<close> leaves with one more warning, the
  \<open>DeprecationWarning\<close> with the message of the source. Where the filter raises it,
  \<open>process\<close> raises that warning and changes nothing: \<open>process_incr\<close> is not called.
  \<open>process_incr\<close> itself issues no warning.
\<close>

theorem process_forwards_to_process_incr:
  "(\<not> warnings_as_errors s \<longrightarrow>
      process s self m columns filters extra =
        (case process_incr s self m columns filters extra of
           (r, s') \<Rightarrow>
             (r, s'\<lparr>warnings := warnings s' @
                     [(''DeprecationWarning'',
                       ''buffer.process is deprecated, use buffer.process_incr'')]\<rparr>)))
   \<and> (warnings_as_errors s \<longrightarrow>
        process s self m columns filters extra =
          (Raised (DeprecationWarning ''buffer.process is deprecated, use buffer.process_incr''),
           s))
   \<and> warnings (snd (process_incr s self m columns filters extra)) = warnings s"
  by (simp add: process_def warn_deprecation_def process_incr_def Let_def
        split: prod.split result.split)

theorem process_forwards_to_process_incr_witness:
  "\<not> warnings_as_errors ((empty_state empty_world)\<lparr>receivers := [recording_receiver]\<rparr>)
   \<and> process ((empty_state empty_world)\<lparr>receivers := [recording_receiver]\<rparr>) 0
       (recording_model ''Group'') [(''times_seen'', 1)] [(''pk'', IntV 7)]
       (Some [(''last_seen'', StrV ''tue'')])
     = (Returned (),
        (empty_state empty_world)
          \<lparr>receivers := [recording_receiver],
           env := \<lparr>rows = [],
                   seen = [StoreCall [(''times_seen'', FPlus ''times_seen'' 1),
                                      (''last_seen'', Const (StrV ''tue''))]
                             [(''pk'', IntV 7)],
                           SignalSeen ''Group'' [(''times_seen'', 1)] [(''pk'', IntV 7)]
                             (Some [(''last_seen'', StrV ''tue'')]) True]\<rparr>,
           warnings := [(''DeprecationWarning'',
                         ''buffer.process is deprecated, use buffer.process_incr'')]\<rparr>)"
proof -
  let ?s = "(empty_state empty_world)\<lparr>receivers := [recording_receiver]\<rparr>"
  have h: "\<not> warnings_as_errors ?s" by (simp add: empty_state_def)
  with process_forwards_to_process_incr
         [of ?s 0 "recording_model ''Group''" "[(''times_seen'', 1)]" "[(''pk'', IntV 7)]"
             "Some [(''last_seen'', StrV ''tue'')]"]
  have "process ?s 0 (recording_model ''Group'') [(''times_seen'', 1)] [(''pk'', IntV 7)]
          (Some [(''last_seen'', StrV ''tue'')])
        = (case process_incr ?s 0 (recording_model ''Group'') [(''times_seen'', 1)]
                  [(''pk'', IntV 7)] (Some [(''last_seen'', StrV ''tue'')]) of
             (r, s') \<Rightarrow>
               (r, s'\<lparr>warnings := warnings s' @
                       [(''DeprecationWarning'',
                         ''buffer.process is deprecated, use buffer.process_incr'')]\<rparr>))"
    by blast
  then show ?thesis
    using h
    by (simp add: process_incr_def empty_state_def empty_world_def recording_model_def
          recording_receiver_def update_kwargs_def dict_update_def)
qed

text \<open>
  C6 as stated fails under a warnings filter that raises \<open>DeprecationWarning\<close>:
  \<open>process\<close> raises the warning and the store sees no call, where \<open>process_incr\<close>
  on the same arguments returns after the store call.
\<close>

theorem process_under_error_filter_counterexample:
  "process ((empty_state empty_world)\<lparr>warnings_as_errors := True\<rparr>) 0
       (recording_model ''Group'') [(''times_seen'', 1)] [(''pk'', IntV 7)] None
     = (Raised (DeprecationWarning ''buffer.process is deprecated, use buffer.process_incr''),
        (empty_state empty_world)\<lparr>warnings_as_errors := True\<rparr>)
   \<and> process_incr ((empty_state empty_world)\<lparr>warnings_as_errors := True\<rparr>) 0
       (recording_model ''Group'') [(''times_seen'', 1)] [(''pk'', IntV 7)] None
     = (Returned (),
        (empty_state empty_world)
          \<lparr>warnings_as_errors := True,
           env := \<lparr>rows = [],
                   seen = [StoreCall [(''times_seen'', FPlus ''times_seen'' 1)]
                             [(''pk'', IntV 7)]]\<rparr>\<rparr>)"
  by (simp add: process_def warn_deprecation_def process_incr_def empty_state_def
        empty_world_def recording_model_def update_kwargs_def dict_update_def)

subsection \<open>incr and the drains\<close>






text \<open>
  C8. In every state each drain returns an empty batch and changes nothing, and so does
  \<open>process_pending\<close>; a drain after a drain returns an empty batch again.
\<close>

theorem drains_return_empty:
  "process_pending_incr s self = (Returned [], s)
   \<and> process_pending_cb s self = (Returned [], s)
   \<and> process_pending s self = (Returned (), s)
   \<and> process_pending_incr (snd (process_pending s self)) self = (Returned [], s)
   \<and> process_pending_cb (snd (process_pending s self)) self = (Returned [], s)"
  by (simp add: process_pending_def process_pending_incr_def process_pending_cb_def)

subsection \<open>Building the update\<close>

text \<open>Looking a key up after \<open>dict_update\<close>, for items with distinct keys.\<close>

lemma map_of_dict_update:
  "distinct (map fst kvs) \<Longrightarrow>
   map_of (dict_update d kvs) k = (case map_of kvs k of Some v \<Rightarrow> Some v | None \<Rightarrow> map_of d k)"
proof (induction kvs arbitrary: d)
  case Nil
  then show ?case by (simp add: dict_update_def)
next
  case (Cons kv kvs)
  obtain k0 v0 where kv: "kv = (k0, v0)" by (cases kv)
  have notin: "map_of kvs k0 = None"
    using Cons.prems by (simp add: kv map_of_eq_None_iff)
  have "map_of (dict_update d (kv # kvs)) k = map_of (dict_update (AList.update k0 v0 d) kvs) k"
    by (simp add: dict_update_def kv)
  also have "\<dots> = (case map_of kvs k of Some v \<Rightarrow> Some v
                     | None \<Rightarrow> map_of (AList.update k0 v0 d) k)"
    using Cons.prems by (intro Cons.IH) simp
  also have "\<dots> = (case map_of (kv # kvs) k of Some v \<Rightarrow> Some v | None \<Rightarrow> map_of d k)"
    using notin by (auto simp add: kv update_conv' split: option.split)
  finally show ?case .
qed

lemma distinct_dict_update:
  "distinct (map fst d) \<Longrightarrow> distinct (map fst (dict_update d kvs))"
  unfolding dict_update_def
  by (induction kvs arbitrary: d) (auto simp add: distinct_update)

lemma distinct_update_kwargs: "distinct (map fst (update_kwargs columns extra))"
  by (simp add: update_kwargs_def Let_def distinct_dict_update split: option.split)

lemma keys_tagged: "map fst (map (\<lambda>(k, v). (k, f k v)) xs) = map fst xs"
  by (induction xs) auto

lemma map_of_tagged:
  "map_of (map (\<lambda>(k, v). (k, f k v)) xs) k = map_option (f k) (map_of xs k)"
  by (induction xs) auto

text \<open>
  What \<open>update_kwargs\<close> holds for a key: the value of \<open>extra\<close> when \<open>extra\<close> has
  the key, otherwise the increment of the column when \<open>columns\<close> has it.
\<close>

lemma map_of_update_kwargs:
  assumes "distinct (map fst columns)" and "distinct (map fst (extra_items extra))"
  shows "map_of (update_kwargs columns extra) k =
           (case map_of (extra_items extra) k of
              Some v \<Rightarrow> Some (Const v)
            | None \<Rightarrow> map_option (FPlus k) (map_of columns k))"
proof -
  let ?cols = "map (\<lambda>(c, v). (c, FPlus c v)) columns"
  let ?kw = "dict_update [] ?cols"
  have "distinct (map fst ?cols)"
    using assms(1) by (simp only: keys_tagged)
  then have "map_of ?kw k = (case map_of ?cols k of Some v \<Rightarrow> Some v | None \<Rightarrow> map_of [] k)"
    by (rule map_of_dict_update)
  then have kw: "map_of ?kw k = map_option (FPlus k) (map_of columns k)"
    by (simp add: map_of_tagged split: option.split)
  show ?thesis
  proof (cases extra)
    case None
    then show ?thesis using kw by (simp add: update_kwargs_def extra_items_def)
  next
    case (Some ex)
    show ?thesis
    proof (cases "ex = []")
      case True
      then show ?thesis using kw Some by (simp add: update_kwargs_def extra_items_def)
    next
      case False
      have "distinct (map fst (map (\<lambda>(k, v). (k, Const v)) ex))"
        using assms(2) Some by (simp only: keys_tagged extra_items_def option.case)
      then have "map_of (dict_update ?kw (map (\<lambda>(k, v). (k, Const v)) ex)) k =
                   (case map_of (map (\<lambda>(k, v). (k, Const v)) ex) k of
                      Some v \<Rightarrow> Some v | None \<Rightarrow> map_of ?kw k)"
        by (rule map_of_dict_update)
      then show ?thesis
        using kw Some False
        by (simp add: update_kwargs_def extra_items_def map_of_tagged [where f = "\<lambda>k. Const"]
              split: option.split)
    qed
  qed
qed

text \<open>
  C9. When \<open>extra\<close> has a key, the update built by \<open>process_incr\<close> holds the plain
  value of \<open>extra\<close> under it and nothing else, whatever \<open>columns\<close> says of the key: no
  increment of that column is left. That update is what the store receives: where the
  call goes through (no filter is named \<open>values\<close>), a store that records its calls has
  recorded exactly it when \<open>process_incr\<close> hands over to the signal; where a filter is
  named \<open>values\<close> the call raises \<open>TypeError\<close> and the store receives nothing.
\<close>

theorem extra_overrides_increment:
  assumes "distinct (map fst ex)" and "map_of ex k = Some v"
  shows "map_of (update_kwargs columns (Some ex)) k = Some (Const v)
       \<and> (\<forall>x. (k, x) \<in> set (update_kwargs columns (Some ex)) \<longrightarrow> x = Const v)
       \<and> (''values'' \<notin> set (map fst filters) \<longrightarrow>
            process_incr s self (recording_model n) columns filters (Some ex) =
              (Returned (),
               s\<lparr>env := snd (send_robust (receivers s)
                      \<lparr>ev_model = recording_model n, ev_columns = columns,
                       ev_filters = filters, ev_extra = Some ex, ev_created = True,
                       ev_sender = recording_model n\<rparr>
                      ((env s)\<lparr>seen := seen (env s) @
                                 [StoreCall (update_kwargs columns (Some ex)) filters]\<rparr>))\<rparr>))
       \<and> (''values'' \<in> set (map fst filters) \<longrightarrow>
            process_incr s self (recording_model n) columns filters (Some ex) =
              (Raised TypeError, s))"
proof -
  let ?kw = "dict_update [] (map (\<lambda>(c, v). (c, FPlus c v)) columns)"
  have ne: "ex \<noteq> []" using assms(2) by auto
  have "distinct (map fst (map (\<lambda>(k, v). (k, Const v)) ex))"
    using assms(1) by (simp only: keys_tagged)
  then have "map_of (dict_update ?kw (map (\<lambda>(k, v). (k, Const v)) ex)) k =
               (case map_of (map (\<lambda>(k, v). (k, Const v)) ex) k of
                  Some v \<Rightarrow> Some v | None \<Rightarrow> map_of ?kw k)"
    by (rule map_of_dict_update)
  then have look: "map_of (update_kwargs columns (Some ex)) k = Some (Const v)"
    using ne assms(2) by (simp add: update_kwargs_def map_of_tagged [where f = "\<lambda>k. Const"])
  have only: "\<forall>x. (k, x) \<in> set (update_kwargs columns (Some ex)) \<longrightarrow> x = Const v"
  proof (intro allI impI)
    fix x
    assume "(k, x) \<in> set (update_kwargs columns (Some ex))"
    with distinct_update_kwargs [of columns "Some ex"]
    have "map_of (update_kwargs columns (Some ex)) k = Some x"
      by (rule map_of_is_SomeI)
    with look show "x = Const v" by simp
  qed
  have sent: "''values'' \<notin> set (map fst filters) \<longrightarrow>
            process_incr s self (recording_model n) columns filters (Some ex) =
              (Returned (),
               s\<lparr>env := snd (send_robust (receivers s)
                      \<lparr>ev_model = recording_model n, ev_columns = columns,
                       ev_filters = filters, ev_extra = Some ex, ev_created = True,
                       ev_sender = recording_model n\<rparr>
                      ((env s)\<lparr>seen := seen (env s) @
                                 [StoreCall (update_kwargs columns (Some ex)) filters]\<rparr>))\<rparr>)"
    by (simp add: process_incr_def Let_def recording_model_def)
  have refused: "''values'' \<in> set (map fst filters) \<longrightarrow>
            process_incr s self (recording_model n) columns filters (Some ex) =
              (Raised TypeError, s)"
    by (simp add: process_incr_def Let_def)
  from look only sent refused show ?thesis by blast
qed

theorem extra_overrides_increment_witness:
  "distinct (map fst [(''times_seen'', IntV 10)])
   \<and> map_of [(''times_seen'', IntV 10)] ''times_seen'' = Some (IntV 10)
   \<and> ''values'' \<notin> set (map fst [(''pk'', IntV 7)])
   \<and> update_kwargs [(''times_seen'', 1), (''score'', 2)] (Some [(''times_seen'', IntV 10)])
       = [(''times_seen'', Const (IntV 10)), (''score'', FPlus ''score'' 2)]
   \<and> map_of (update_kwargs [(''times_seen'', 1), (''score'', 2)] (Some [(''times_seen'', IntV 10)]))
       ''times_seen'' = Some (Const (IntV 10))
   \<and> process_incr (empty_state empty_world) 0 (recording_model ''Group'')
       [(''times_seen'', 1), (''score'', 2)] [(''pk'', IntV 7)] (Some [(''times_seen'', IntV 10)])
     = (Returned (),
        (empty_state empty_world)
          \<lparr>env := \<lparr>rows = [],
                   seen = [StoreCall [(''times_seen'', Const (IntV 10)),
                                      (''score'', FPlus ''score'' 2)]
                             [(''pk'', IntV 7)]]\<rparr>\<rparr>)"
proof -
  have d: "distinct (map fst [(''times_seen'', IntV 10)])" by simp
  have l: "map_of [(''times_seen'', IntV 10)] ''times_seen'' = Some (IntV 10)" by simp
  have nv: "''values'' \<notin> set (map fst [(''pk'', IntV 7)])" by simp
  from extra_overrides_increment
         [OF d l, of "[(''times_seen'', 1), (''score'', 2)]" "[(''pk'', IntV 7)]"
            "empty_state empty_world" 0 "''Group''"] nv
  have "map_of (update_kwargs [(''times_seen'', 1), (''score'', 2)]
                  (Some [(''times_seen'', IntV 10)])) ''times_seen'' = Some (Const (IntV 10))"
    and "process_incr (empty_state empty_world) 0 (recording_model ''Group'')
           [(''times_seen'', 1), (''score'', 2)] [(''pk'', IntV 7)]
           (Some [(''times_seen'', IntV 10)])
         = (Returned (),
            (empty_state empty_world)
              \<lparr>env := snd (send_robust (receivers (empty_state empty_world))
                 \<lparr>ev_model = recording_model ''Group'',
                  ev_columns = [(''times_seen'', 1), (''score'', 2)],
                  ev_filters = [(''pk'', IntV 7)], ev_extra = Some [(''times_seen'', IntV 10)],
                  ev_created = True, ev_sender = recording_model ''Group''\<rparr>
                 ((env (empty_state empty_world))
                    \<lparr>seen := seen (env (empty_state empty_world)) @
                       [StoreCall (update_kwargs [(''times_seen'', 1), (''score'', 2)]
                                     (Some [(''times_seen'', IntV 10)]))
                          [(''pk'', IntV 7)]]\<rparr>))\<rparr>)"
    by blast+
  then show ?thesis
    using d l nv
    by (simp add: update_kwargs_def dict_update_def empty_state_def empty_world_def)
qed

subsection \<open>The completion event\<close>

lemma length_send_robust: "length (fst (send_robust rs ev e)) = length rs"
  by (induction rs arbitrary: e) (simp_all add: case_prod_beta)

lemma send_robust_append:
  "snd (send_robust (rs1 @ rs2) ev e) = snd (send_robust rs2 ev (snd (send_robust rs1 ev e)))"
  by (induction rs1 arbitrary: e) (simp_all add: case_prod_beta)

lemma send_robust_Cons:
  "snd (send_robust (r # rs) ev e) = snd (send_robust rs ev (snd (r ev e)))"
  by (simp add: case_prod_beta)

text \<open>
  C5. When the call to the store goes through (no filter is named \<open>values\<close>) and the
  store write returns, \<open>process_incr\<close> returns normally and the outside state is the
  one left by a single robust delivery, started on the state the store left, of the event
  that carries the model (also as the sender), the columns, the filters, the extra fields
  and the flag the store returned. The delivery gives one response for each subscriber,
  and wherever a subscriber stands in the list, the subscribers after it run on the state
  it left, whether it returned or raised. When the store write raises, the method raises
  the same error and no subscriber runs; when a filter is named \<open>values\<close> the call
  raises \<open>TypeError\<close>, and neither the store nor a subscriber runs.
\<close>

theorem process_incr_emits_one_event:
  "(''values'' \<notin> set (map fst filters)
      \<and> create_or_update m (update_kwargs columns extra) filters (env s) = (Returned created, e1)
    \<longrightarrow>
      process_incr s self m columns filters extra =
        (Returned (),
         s\<lparr>env := snd (send_robust (receivers s)
                   \<lparr>ev_model = m, ev_columns = columns, ev_filters = filters,
                    ev_extra = extra, ev_created = created, ev_sender = m\<rparr> e1)\<rparr>)
    \<and> length (fst (send_robust (receivers s)
                   \<lparr>ev_model = m, ev_columns = columns, ev_filters = filters,
                    ev_extra = extra, ev_created = created, ev_sender = m\<rparr> e1))
        = length (receivers s)
    \<and> (\<forall>rs1 r rs2. receivers s = rs1 @ r # rs2 \<longrightarrow>
          snd (send_robust (receivers s)
                   \<lparr>ev_model = m, ev_columns = columns, ev_filters = filters,
                    ev_extra = extra, ev_created = created, ev_sender = m\<rparr> e1)
            = snd (send_robust rs2
                   \<lparr>ev_model = m, ev_columns = columns, ev_filters = filters,
                    ev_extra = extra, ev_created = created, ev_sender = m\<rparr>
                (snd (r \<lparr>ev_model = m, ev_columns = columns, ev_filters = filters,
                          ev_extra = extra, ev_created = created, ev_sender = m\<rparr>
                   (snd (send_robust rs1
                           \<lparr>ev_model = m, ev_columns = columns, ev_filters = filters,
                            ev_extra = extra, ev_created = created, ev_sender = m\<rparr>
                           e1)))))))
   \<and> (''values'' \<notin> set (map fst filters)
        \<and> create_or_update m (update_kwargs columns extra) filters (env s) = (Raised err, e1)
      \<longrightarrow> process_incr s self m columns filters extra = (Raised err, s\<lparr>env := e1\<rparr>))
   \<and> (''values'' \<in> set (map fst filters)
      \<longrightarrow> process_incr s self m columns filters extra = (Raised TypeError, s))"
  by (simp add: process_incr_def Let_def length_send_robust send_robust_append send_robust_Cons
        del: send_robust.simps)

theorem process_incr_emits_one_event_witness:
  "''values'' \<notin> set (map fst [(''pk'', IntV 7)])
   \<and> create_or_update (spec_model ''Group'')
       (update_kwargs [(''times_seen'', 1)] (Some [(''last_seen'', StrV ''tue'')]))
       [(''pk'', IntV 7)]
       \<lparr>rows = [[(''pk'', IntV 7), (''times_seen'', IntV 5), (''last_seen'', StrV ''mon'')]],
        seen = []\<rparr>
     = (Returned False,
        \<lparr>rows = [[(''pk'', IntV 7), (''times_seen'', IntV 6), (''last_seen'', StrV ''tue'')]],
         seen = []\<rparr>)
   \<and> process_incr
       ((empty_state
           \<lparr>rows = [[(''pk'', IntV 7), (''times_seen'', IntV 5), (''last_seen'', StrV ''mon'')]],
            seen = []\<rparr>)
          \<lparr>receivers := [raising_receiver, recording_receiver]\<rparr>) 0
       (spec_model ''Group'') [(''times_seen'', 1)] [(''pk'', IntV 7)]
       (Some [(''last_seen'', StrV ''tue'')])
     = (Returned (),
        (empty_state
           \<lparr>rows = [[(''pk'', IntV 7), (''times_seen'', IntV 6), (''last_seen'', StrV ''tue'')]],
            seen = [SignalSeen ''Group'' [(''times_seen'', 1)] [(''pk'', IntV 7)]
                      (Some [(''last_seen'', StrV ''tue'')]) False]\<rparr>)
          \<lparr>receivers := [raising_receiver, recording_receiver]\<rparr>)"
proof -
  let ?w = "\<lparr>rows = [[(''pk'', IntV 7), (''times_seen'', IntV 5), (''last_seen'', StrV ''mon'')]],
            seen = []\<rparr>"
  let ?w1 = "\<lparr>rows = [[(''pk'', IntV 7), (''times_seen'', IntV 6), (''last_seen'', StrV ''tue'')]],
             seen = []\<rparr>"
  let ?s = "(empty_state ?w)\<lparr>receivers := [raising_receiver, recording_receiver]\<rparr>"
  let ?ev = "\<lparr>ev_model = spec_model ''Group'', ev_columns = [(''times_seen'', 1)],
              ev_filters = [(''pk'', IntV 7)], ev_extra = Some [(''last_seen'', StrV ''tue'')],
              ev_created = False, ev_sender = spec_model ''Group''\<rparr>"
  have nv: "''values'' \<notin> set (map fst [(''pk'', IntV 7)])" by simp
  have h: "create_or_update (spec_model ''Group'')
             (update_kwargs [(''times_seen'', 1)] (Some [(''last_seen'', StrV ''tue'')]))
             [(''pk'', IntV 7)] (env ?s)
           = (Returned False, ?w1)"
    by (simp add: spec_model_def spec_create_or_update_def matches_def update_kwargs_def
          dict_update_def empty_state_def)
  from process_incr_emits_one_event
         [of "[(''pk'', IntV 7)]" "spec_model ''Group''" "[(''times_seen'', 1)]"
             "Some [(''last_seen'', StrV ''tue'')]" ?s False ?w1 0] nv h
  have "process_incr ?s 0 (spec_model ''Group'') [(''times_seen'', 1)] [(''pk'', IntV 7)]
          (Some [(''last_seen'', StrV ''tue'')])
          = (Returned (), ?s\<lparr>env := snd (send_robust (receivers ?s) ?ev ?w1)\<rparr>)"
    by blast
  then show ?thesis
    using nv h
    by (simp add: empty_state_def spec_model_def raising_receiver_def recording_receiver_def)
qed

subsection \<open>Increment or create\<close>

text \<open>An update whose expressions all have a value on the row gives each key its value.\<close>

lemma update_row_result:
  "distinct (map fst kw) \<Longrightarrow>
   (\<forall>k x. map_of kw k = Some x \<longrightarrow> eval_expr old x \<noteq> None) \<Longrightarrow>
   \<exists>r'. update_row old kw acc = Some r'
      \<and> (\<forall>k. map_of r' k =
            (case map_of kw k of Some x \<Rightarrow> eval_expr old x | None \<Rightarrow> map_of acc k))"
proof (induction kw arbitrary: acc)
  case Nil
  then show ?case by simp
next
  case (Cons kx kw)
  obtain k0 x0 where kx: "kx = (k0, x0)" by (cases kx)
  have fresh: "map_of kw k0 = None"
    using Cons.prems(1) by (simp add: kx map_of_eq_None_iff)
  have "map_of (kx # kw) k0 = Some x0" by (simp add: kx)
  with Cons.prems(2) have "eval_expr old x0 \<noteq> None" by blast
  then obtain v0 where v0: "eval_expr old x0 = Some v0" by blast
  have rest: "\<forall>k x. map_of kw k = Some x \<longrightarrow> eval_expr old x \<noteq> None"
  proof (intro allI impI)
    fix k x
    assume a: "map_of kw k = Some x"
    with fresh have "k \<noteq> k0" by auto
    with a have "map_of (kx # kw) k = Some x" by (simp add: kx)
    with Cons.prems(2) show "eval_expr old x \<noteq> None" by blast
  qed
  have "distinct (map fst kw)" using Cons.prems(1) by simp
  from Cons.IH [OF this rest, of "AList.update k0 v0 acc"] obtain r' where
    r': "update_row old kw (AList.update k0 v0 acc) = Some r'"
    and look: "\<And>k. map_of r' k =
            (case map_of kw k of Some x \<Rightarrow> eval_expr old x
             | None \<Rightarrow> map_of (AList.update k0 v0 acc) k)"
    by blast
  have "update_row old (kx # kw) acc = Some r'"
    using r' v0 by (simp add: kx)
  moreover have "\<forall>k. map_of r' k =
            (case map_of (kx # kw) k of Some x \<Rightarrow> eval_expr old x | None \<Rightarrow> map_of acc k)"
    using look fresh v0 by (auto simp add: kx update_conv' split: option.split)
  ultimately show ?case by blast
qed

lemma update_row_update_kwargs:
  assumes "distinct (map fst columns)" and "distinct (map fst (extra_items extra))"
    and ints: "\<forall>c d. map_of columns c = Some d \<and> map_of (extra_items extra) c = None
                 \<longrightarrow> (\<exists>i. map_of r c = Some (IntV i))"
  shows "\<exists>r'. update_row r (update_kwargs columns extra) r = Some r'
           \<and> (\<forall>k. map_of r' k =
                 (case map_of (extra_items extra) k of
                    Some v \<Rightarrow> Some v
                  | None \<Rightarrow>
                      (case map_of columns k of
                         Some d \<Rightarrow> (case map_of r k of
                                      Some (IntV i) \<Rightarrow> Some (IntV (i + d))
                                    | _ \<Rightarrow> None)
                       | None \<Rightarrow> map_of r k)))"
proof -
  let ?kw = "update_kwargs columns extra"
  note look = map_of_update_kwargs [OF assms(1,2)]
  have ok: "\<forall>k x. map_of ?kw k = Some x \<longrightarrow> eval_expr r x \<noteq> None"
  proof (intro allI impI)
    fix k x
    assume a: "map_of ?kw k = Some x"
    show "eval_expr r x \<noteq> None"
    proof (cases "map_of (extra_items extra) k")
      case (Some v)
      with a look [of k] show ?thesis by auto
    next
      case None
      with a look [of k] obtain d where d: "map_of columns k = Some d" and x: "x = FPlus k d"
        by auto
      from ints d None obtain i where "map_of r k = Some (IntV i)" by blast
      with x show ?thesis by simp
    qed
  qed
  from update_row_result [OF distinct_update_kwargs ok, of r] obtain r' where
    r': "update_row r ?kw r = Some r'"
    and res: "\<And>k. map_of r' k =
            (case map_of ?kw k of Some x \<Rightarrow> eval_expr r x | None \<Rightarrow> map_of r k)"
    by blast
  have "\<forall>k. map_of r' k =
                 (case map_of (extra_items extra) k of
                    Some v \<Rightarrow> Some v
                  | None \<Rightarrow>
                      (case map_of columns k of
                         Some d \<Rightarrow> (case map_of r k of
                                      Some (IntV i) \<Rightarrow> Some (IntV (i + d))
                                    | _ \<Rightarrow> None)
                       | None \<Rightarrow> map_of r k))"
    by (simp add: res look split: option.split)
  with r' show ?thesis by blast
qed

lemma map_of_new_row:
  assumes "distinct (map fst columns)" and "distinct (map fst (extra_items extra))"
  shows "map_of (new_row filters (update_kwargs columns extra)) k =
           (case map_of (extra_items extra) k of
              Some v \<Rightarrow> Some v
            | None \<Rightarrow> (case map_of columns k of
                         Some d \<Rightarrow> Some (IntV d)
                       | None \<Rightarrow> map_of filters k))"
proof -
  let ?kw = "update_kwargs columns extra"
  let ?init = "map (\<lambda>(k, x). (k, initial_value x)) ?kw"
  have "distinct (map fst ?init)"
    using distinct_update_kwargs [of columns extra] by (simp only: keys_tagged)
  then have "map_of (dict_update filters ?init) k =
               (case map_of ?init k of Some v \<Rightarrow> Some v | None \<Rightarrow> map_of filters k)"
    by (rule map_of_dict_update)
  then show ?thesis
    by (simp add: new_row_def map_of_tagged [where f = "\<lambda>k. initial_value"]
          map_of_update_kwargs [OF assms] split: option.split)
qed

text \<open>
  C4, as the code has it, on the store of the specification; \<open>columns\<close> and \<open>extra\<close>
  are dicts (their keys are distinct). Where a filter is named \<open>values\<close> the call
  raises \<open>TypeError\<close> and nothing changes. Otherwise: when no row matches the filters,
  \<open>process_incr\<close> adds one row and sends the event with the flag true; the row holds,
  for a key of \<open>extra\<close>, the value of \<open>extra\<close>, for a column listed and not in
  \<open>extra\<close>, its delta, and for any other key the value the filters give it. When a row
  matches, and the matching rows hold numbers in the listed columns that \<open>extra\<close> does
  not overwrite, it sends the event with the flag false after the table has changed as
  follows: the rows that do not match are as before, and a row that matches holds, for a
  key of \<open>extra\<close>, the value of \<open>extra\<close>, for a column listed and not in \<open>extra\<close>,
  its old number plus the delta, and for any other key what it held.
\<close>

theorem process_incr_increment_or_create:
  fixes s :: "world state"
  assumes "distinct (map fst columns)" and "distinct (map fst (extra_items extra))"
  shows
   "(''values'' \<in> set (map fst filters) \<longrightarrow>
       process_incr s self (spec_model n) columns filters extra = (Raised TypeError, s))
  \<and> (''values'' \<notin> set (map fst filters) \<and> \<not> list_ex (matches filters) (rows (env s)) \<longrightarrow>
       (\<exists>r. process_incr s self (spec_model n) columns filters extra =
               (Returned (),
                s\<lparr>env := snd (send_robust (receivers s)
                          \<lparr>ev_model = spec_model n, ev_columns = columns,
                           ev_filters = filters, ev_extra = extra, ev_created = True,
                           ev_sender = spec_model n\<rparr>
                          ((env s)\<lparr>rows := rows (env s) @ [r]\<rparr>))\<rparr>)
          \<and> (\<forall>k. map_of r k =
                 (case map_of (extra_items extra) k of
                    Some v \<Rightarrow> Some v
                  | None \<Rightarrow> (case map_of columns k of
                               Some d \<Rightarrow> Some (IntV d)
                             | None \<Rightarrow> map_of filters k)))))
  \<and> (''values'' \<notin> set (map fst filters) \<and> list_ex (matches filters) (rows (env s))
       \<and> (\<forall>r \<in> set (rows (env s)). matches filters r \<longrightarrow>
             (\<forall>c d. map_of columns c = Some d \<and> map_of (extra_items extra) c = None
                \<longrightarrow> (\<exists>i. map_of r c = Some (IntV i)))) \<longrightarrow>
       (\<exists>t'. process_incr s self (spec_model n) columns filters extra =
               (Returned (),
                s\<lparr>env := snd (send_robust (receivers s)
                          \<lparr>ev_model = spec_model n, ev_columns = columns,
                           ev_filters = filters, ev_extra = extra, ev_created = False,
                           ev_sender = spec_model n\<rparr>
                          ((env s)\<lparr>rows := t'\<rparr>))\<rparr>)
          \<and> length t' = length (rows (env s))
          \<and> (\<forall>j < length (rows (env s)).
                (\<not> matches filters (rows (env s) ! j) \<longrightarrow> t' ! j = rows (env s) ! j)
              \<and> (matches filters (rows (env s) ! j) \<longrightarrow>
                   (\<forall>k. map_of (t' ! j) k =
                      (case map_of (extra_items extra) k of
                         Some v \<Rightarrow> Some v
                       | None \<Rightarrow>
                           (case map_of columns k of
                              Some d \<Rightarrow> (case map_of (rows (env s) ! j) k of
                                           Some (IntV i) \<Rightarrow> Some (IntV (i + d))
                                         | _ \<Rightarrow> None)
                            | None \<Rightarrow> map_of (rows (env s) ! j) k)))))))"
proof (intro conjI impI)
  assume "''values'' \<in> set (map fst filters)"
  then show "process_incr s self (spec_model n) columns filters extra = (Raised TypeError, s)"
    by (simp add: process_incr_def Let_def)
next
  assume absent: "''values'' \<notin> set (map fst filters)
                  \<and> \<not> list_ex (matches filters) (rows (env s))"
  let ?r = "new_row filters (update_kwargs columns extra)"
  have "process_incr s self (spec_model n) columns filters extra =
               (Returned (),
                s\<lparr>env := snd (send_robust (receivers s)
                          \<lparr>ev_model = spec_model n, ev_columns = columns,
                           ev_filters = filters, ev_extra = extra, ev_created = True,
                           ev_sender = spec_model n\<rparr>
                          ((env s)\<lparr>rows := rows (env s) @ [?r]\<rparr>))\<rparr>)"
    using absent
    by (simp add: process_incr_def Let_def spec_model_def spec_create_or_update_def)
  with map_of_new_row [OF assms, of filters]
  show "\<exists>r. process_incr s self (spec_model n) columns filters extra =
               (Returned (),
                s\<lparr>env := snd (send_robust (receivers s)
                          \<lparr>ev_model = spec_model n, ev_columns = columns,
                           ev_filters = filters, ev_extra = extra, ev_created = True,
                           ev_sender = spec_model n\<rparr>
                          ((env s)\<lparr>rows := rows (env s) @ [r]\<rparr>))\<rparr>)
          \<and> (\<forall>k. map_of r k =
                 (case map_of (extra_items extra) k of
                    Some v \<Rightarrow> Some v
                  | None \<Rightarrow> (case map_of columns k of
                               Some d \<Rightarrow> Some (IntV d)
                             | None \<Rightarrow> map_of filters k)))"
    by blast
next
  assume present: "''values'' \<notin> set (map fst filters) \<and> list_ex (matches filters) (rows (env s))
       \<and> (\<forall>r \<in> set (rows (env s)). matches filters r \<longrightarrow>
             (\<forall>c d. map_of columns c = Some d \<and> map_of (extra_items extra) c = None
                \<longrightarrow> (\<exists>i. map_of r c = Some (IntV i))))"
  let ?kw = "update_kwargs columns extra"
  let ?upd = "\<lambda>r. if matches filters r
                   then (case update_row r ?kw r of Some r' \<Rightarrow> r' | None \<Rightarrow> r)
                   else r"
  let ?t' = "map ?upd (rows (env s))"
  have row: "\<exists>r'. update_row r ?kw r = Some r'
           \<and> (\<forall>k. map_of r' k =
                 (case map_of (extra_items extra) k of
                    Some v \<Rightarrow> Some v
                  | None \<Rightarrow>
                      (case map_of columns k of
                         Some d \<Rightarrow> (case map_of r k of
                                      Some (IntV i) \<Rightarrow> Some (IntV (i + d))
                                    | _ \<Rightarrow> None)
                       | None \<Rightarrow> map_of r k)))"
    if "r \<in> set (rows (env s))" and "matches filters r" for r
    using present that by (intro update_row_update_kwargs [OF assms]) blast
  have all_ok: "list_all (\<lambda>r. matches filters r \<longrightarrow> update_row r ?kw r \<noteq> None) (rows (env s))"
    unfolding list_all_iff using row by fastforce
  have run: "process_incr s self (spec_model n) columns filters extra =
               (Returned (),
                s\<lparr>env := snd (send_robust (receivers s)
                          \<lparr>ev_model = spec_model n, ev_columns = columns,
                           ev_filters = filters, ev_extra = extra, ev_created = False,
                           ev_sender = spec_model n\<rparr>
                          ((env s)\<lparr>rows := ?t'\<rparr>))\<rparr>)"
    using present all_ok
    by (simp add: process_incr_def Let_def spec_model_def spec_create_or_update_def)
  have len: "length ?t' = length (rows (env s))" by simp
  have each: "(\<forall>j < length (rows (env s)).
                (\<not> matches filters (rows (env s) ! j) \<longrightarrow> ?t' ! j = rows (env s) ! j)
              \<and> (matches filters (rows (env s) ! j) \<longrightarrow>
                   (\<forall>k. map_of (?t' ! j) k =
                      (case map_of (extra_items extra) k of
                         Some v \<Rightarrow> Some v
                       | None \<Rightarrow>
                           (case map_of columns k of
                              Some d \<Rightarrow> (case map_of (rows (env s) ! j) k of
                                           Some (IntV i) \<Rightarrow> Some (IntV (i + d))
                                         | _ \<Rightarrow> None)
                            | None \<Rightarrow> map_of (rows (env s) ! j) k)))))"
  proof (intro allI impI conjI)
    fix j assume j: "j < length (rows (env s))" and "\<not> matches filters (rows (env s) ! j)"
    then show "?t' ! j = rows (env s) ! j" by simp
  next
    fix j k assume j: "j < length (rows (env s))" and m: "matches filters (rows (env s) ! j)"
    from j have "rows (env s) ! j \<in> set (rows (env s))" by simp
    from row [OF this m] obtain r' where
      "update_row (rows (env s) ! j) ?kw (rows (env s) ! j) = Some r'"
      and "\<And>k. map_of r' k =
                 (case map_of (extra_items extra) k of
                    Some v \<Rightarrow> Some v
                  | None \<Rightarrow>
                      (case map_of columns k of
                         Some d \<Rightarrow> (case map_of (rows (env s) ! j) k of
                                      Some (IntV i) \<Rightarrow> Some (IntV (i + d))
                                    | _ \<Rightarrow> None)
                       | None \<Rightarrow> map_of (rows (env s) ! j) k))"
      by blast
    with j m show "map_of (?t' ! j) k =
                      (case map_of (extra_items extra) k of
                         Some v \<Rightarrow> Some v
                       | None \<Rightarrow>
                           (case map_of columns k of
                              Some d \<Rightarrow> (case map_of (rows (env s) ! j) k of
                                           Some (IntV i) \<Rightarrow> Some (IntV (i + d))
                                         | _ \<Rightarrow> None)
                            | None \<Rightarrow> map_of (rows (env s) ! j) k))"
      by simp
  qed
  from run len each
  show "\<exists>t'. process_incr s self (spec_model n) columns filters extra =
               (Returned (),
                s\<lparr>env := snd (send_robust (receivers s)
                          \<lparr>ev_model = spec_model n, ev_columns = columns,
                           ev_filters = filters, ev_extra = extra, ev_created = False,
                           ev_sender = spec_model n\<rparr>
                          ((env s)\<lparr>rows := t'\<rparr>))\<rparr>)
          \<and> length t' = length (rows (env s))
          \<and> (\<forall>j < length (rows (env s)).
                (\<not> matches filters (rows (env s) ! j) \<longrightarrow> t' ! j = rows (env s) ! j)
              \<and> (matches filters (rows (env s) ! j) \<longrightarrow>
                   (\<forall>k. map_of (t' ! j) k =
                      (case map_of (extra_items extra) k of
                         Some v \<Rightarrow> Some v
                       | None \<Rightarrow>
                           (case map_of columns k of
                              Some d \<Rightarrow> (case map_of (rows (env s) ! j) k of
                                           Some (IntV i) \<Rightarrow> Some (IntV (i + d))
                                         | _ \<Rightarrow> None)
                            | None \<Rightarrow> map_of (rows (env s) ! j) k)))))"
    by blast
qed

theorem process_incr_increment_or_create_witness:
  "distinct (map fst [(''times_seen'', 1::int)])
   \<and> distinct (map fst (extra_items (Some [(''last_seen'', StrV ''tue'')])))
   \<and> ''values'' \<notin> set (map fst [(''pk'', IntV 7)])
   \<and> list_ex (matches [(''pk'', IntV 7)])
        [[(''pk'', IntV 7), (''times_seen'', IntV 5), (''last_seen'', StrV ''mon'')],
         [(''pk'', IntV 8), (''times_seen'', IntV 2), (''last_seen'', StrV ''sun'')]]
   \<and> process_incr
        ((empty_state
            \<lparr>rows = [[(''pk'', IntV 7), (''times_seen'', IntV 5), (''last_seen'', StrV ''mon'')],
                     [(''pk'', IntV 8), (''times_seen'', IntV 2), (''last_seen'', StrV ''sun'')]],
             seen = []\<rparr>)\<lparr>receivers := [recording_receiver]\<rparr>)
        0 (spec_model ''Group'') [(''times_seen'', 1)] [(''pk'', IntV 7)]
        (Some [(''last_seen'', StrV ''tue'')])
      = (Returned (),
         (empty_state
            \<lparr>rows = [[(''pk'', IntV 7), (''times_seen'', IntV 6), (''last_seen'', StrV ''tue'')],
                     [(''pk'', IntV 8), (''times_seen'', IntV 2), (''last_seen'', StrV ''sun'')]],
             seen = [SignalSeen ''Group'' [(''times_seen'', 1)] [(''pk'', IntV 7)]
                       (Some [(''last_seen'', StrV ''tue'')]) False]\<rparr>)
           \<lparr>receivers := [recording_receiver]\<rparr>)
   \<and> \<not> list_ex (matches [(''pk'', IntV 9)])
        [[(''pk'', IntV 7), (''times_seen'', IntV 5), (''last_seen'', StrV ''mon'')]]
   \<and> process_incr
        ((empty_state
            \<lparr>rows = [[(''pk'', IntV 7), (''times_seen'', IntV 5), (''last_seen'', StrV ''mon'')]],
             seen = []\<rparr>)\<lparr>receivers := [recording_receiver]\<rparr>)
        0 (spec_model ''Group'') [(''times_seen'', 1)] [(''pk'', IntV 9)]
        (Some [(''last_seen'', StrV ''tue'')])
      = (Returned (),
         (empty_state
            \<lparr>rows = [[(''pk'', IntV 7), (''times_seen'', IntV 5), (''last_seen'', StrV ''mon'')],
                     [(''pk'', IntV 9), (''times_seen'', IntV 1), (''last_seen'', StrV ''tue'')]],
             seen = [SignalSeen ''Group'' [(''times_seen'', 1)] [(''pk'', IntV 9)]
                       (Some [(''last_seen'', StrV ''tue'')]) True]\<rparr>)
           \<lparr>receivers := [recording_receiver]\<rparr>)
   \<and> process_incr
        ((empty_state
            \<lparr>rows = [[(''pk'', IntV 7), (''times_seen'', IntV 5), (''last_seen'', StrV ''mon'')]],
             seen = []\<rparr>)\<lparr>receivers := [recording_receiver]\<rparr>)
        0 (spec_model ''Group'') [(''times_seen'', 1)] [(''values'', IntV 9)]
        (Some [(''last_seen'', StrV ''tue'')])
      = (Raised TypeError,
         (empty_state
            \<lparr>rows = [[(''pk'', IntV 7), (''times_seen'', IntV 5), (''last_seen'', StrV ''mon'')]],
             seen = []\<rparr>)\<lparr>receivers := [recording_receiver]\<rparr>)"
proof -
  let ?s = "(empty_state
            \<lparr>rows = [[(''pk'', IntV 7), (''times_seen'', IntV 5), (''last_seen'', StrV ''mon'')]],
             seen = []\<rparr>)\<lparr>receivers := [recording_receiver]\<rparr>"
  have d1: "distinct (map fst [(''times_seen'', 1::int)])" by simp
  have d2: "distinct (map fst (extra_items (Some [(''last_seen'', StrV ''tue'')])))"
    by (simp add: extra_items_def)
  have v: "''values'' \<in> set (map fst [(''values'', IntV 9)])" by simp
  from process_incr_increment_or_create [OF d1 d2, of "[(''values'', IntV 9)]" ?s 0 "''Group''"] v
  have refused: "process_incr ?s 0 (spec_model ''Group'') [(''times_seen'', 1)]
                   [(''values'', IntV 9)] (Some [(''last_seen'', StrV ''tue'')])
                 = (Raised TypeError, ?s)"
    by blast
  show ?thesis
    using d1 d2 refused
    by (simp add: process_incr_def spec_model_def spec_create_or_update_def matches_def
        update_kwargs_def dict_update_def empty_state_def new_row_def extra_items_def
        recording_receiver_def)
qed

text \<open>
  C4 as stated fails where \<open>extra\<close> and \<open>columns\<close> share a key: the row holds 5 in
  \<open>times_seen\<close>, the delta is 1, and the column ends at the value of \<open>extra\<close>, 10, not
  at 6.
\<close>

theorem process_incr_overlap_counterexample:
  "rows (env (snd (process_incr
               (empty_state \<lparr>rows = [[(''pk'', IntV 7), (''times_seen'', IntV 5)]], seen = []\<rparr>)
               0 (spec_model ''Group'') [(''times_seen'', 1)] [(''pk'', IntV 7)]
               (Some [(''times_seen'', IntV 10)]))))
     = [[(''pk'', IntV 7), (''times_seen'', IntV 10)]]
   \<and> IntV 10 \<noteq> IntV (5 + 1)"
  by (simp add: process_incr_def spec_model_def spec_create_or_update_def matches_def
        update_kwargs_def dict_update_def empty_state_def)

end
